theory Spec2Isabelle
  imports Complex_Main
begin

section \<open>The UD-MIS model of Week2_Rydberg_Atoms/Task1.ipynb\<close>

text \<open>
  The notebook defines the class \<open>UDMIS\<close> (cell 3), instantiates it on two notebook-level
  names \<open>u\<close> and \<open>graph\<close> (cell 4) and runs an annealing loop (cell 5).

  Numbers: Python floats are modelled as exact reals, so every statement below is about
  the arithmetic the code writes down, without rounding. Counters that the code
  accumulates from booleans are integers. Vertex indices are natural numbers.

  Names: the methods \<open>find_edges\<close>, \<open>energy\<close> and \<open>energy_diff\<close> mention the bare names
  \<open>graph\<close> and \<open>u\<close>, which Python resolves in the notebook's global scope, so every method
  takes the globals as an explicit argument next to the instance.
\<close>

datatype error = IndexError | NameError | ZeroDivisionError

record globals =
  g_u :: "real option"
  g_graph :: "(real \<times> real) list option"

record udmis =
  self_u :: real
  self_graph :: "(real \<times> real) list"
  num_vertices :: nat
  occupations :: "bool list"
  edges :: "bool list list"

subsection \<open>find_edges\<close>

text \<open>\<open>graph[i]\<close> on the global name: NameError when it is unbound, IndexError past the end.\<close>

definition graph_item :: "globals \<Rightarrow> nat \<Rightarrow> error + (real \<times> real)" where
  "graph_item gl i =
     (case g_graph gl of
        None \<Rightarrow> Inl NameError
      | Some g \<Rightarrow> if i < length g then Inr (g ! i) else Inl IndexError)"

text \<open>
  \<open>np.sqrt((x_i - x_j)**2. + (y_i - y_j)**2.)\<close>. Over exact reals every square has a
  value; a Python float square beyond the float range raises OverflowError, which,
  like rounding, has no counterpart here.
\<close>

definition dij :: "real \<times> real \<Rightarrow> real \<times> real \<Rightarrow> real" where
  "dij p q = sqrt ((fst p - fst q)\<^sup>2 + (snd p - snd q)\<^sup>2)"

text \<open>\<open>edges[i,j] = True\<close> on a two-dimensional array.\<close>

definition set_true :: "bool list list \<Rightarrow> nat \<Rightarrow> nat \<Rightarrow> bool list list" where
  "set_true e i j = e[i := (e ! i)[j := True]]"

text \<open>The inner loop \<open>for j in range(i+1, self.num_vertices)\<close>, the list being the
  indices still to visit.\<close>

fun find_edges_inner ::
  "globals \<Rightarrow> nat \<Rightarrow> real \<times> real \<Rightarrow> nat list \<Rightarrow> bool list list \<Rightarrow> error + bool list list" where
  "find_edges_inner gl i p [] e = Inr e"
| "find_edges_inner gl i p (j # js) e =
     (case graph_item gl j of
        Inl err \<Rightarrow> Inl err
      | Inr q \<Rightarrow>
          find_edges_inner gl i p js
            (if dij p q \<le> 1 then set_true (set_true e i j) j i else e))"

text \<open>The outer loop \<open>for i in range(self.num_vertices-1)\<close>.\<close>

fun find_edges_outer ::
  "globals \<Rightarrow> nat \<Rightarrow> nat list \<Rightarrow> bool list list \<Rightarrow> error + bool list list" where
  "find_edges_outer gl n [] e = Inr e"
| "find_edges_outer gl n (i # is) e =
     (case graph_item gl i of
        Inl err \<Rightarrow> Inl err
      | Inr p \<Rightarrow>
          (case find_edges_inner gl i p [Suc i..<n] e of
             Inl err \<Rightarrow> Inl err
           | Inr e' \<Rightarrow> find_edges_outer gl n is e'))"

text \<open>
  \<open>np.zeros((n, n), dtype=bool)\<close> followed by the two loops. \<open>range(n-1)\<close> is empty for
  \<open>n = 0\<close> and for \<open>n = 1\<close>, as is \<open>[0..<n - 1]\<close> with truncating subtraction.
  The method reads \<open>self.num_vertices\<close> and nothing else of the instance.
\<close>

definition find_edges :: "globals \<Rightarrow> udmis \<Rightarrow> error + bool list list" where
  "find_edges gl m =
     (let n = num_vertices m
      in find_edges_outer gl n [0..<n - 1] (replicate n (replicate n False)))"

subsection \<open>The constructor\<close>

text \<open>
  \<open>np.random.rand(n) < 0.5\<close>: the draws are a parameter, \<open>rand k\<close> being the \<open>k\<close>-th one.
  \<open>self.edges\<close> does not exist yet while \<open>find_edges\<close> runs; it is the empty list there.
  An exception of \<open>find_edges\<close> leaves the constructor. The constructor checks neither
  of its arguments. The base class \<open>AbstractUDMIS\<close> lives in \<open>abstract_udmis.py\<close>; its
  initialiser is taken to leave the five fields alone, and \<open>print\<close> is output only.
\<close>

definition UDMIS_init :: "globals \<Rightarrow> (nat \<Rightarrow> real) \<Rightarrow> real \<Rightarrow> (real \<times> real) list \<Rightarrow> error + udmis" where
  "UDMIS_init gl rand u graph =
     (let m = \<lparr> self_u = u, self_graph = graph, num_vertices = length graph,
                occupations = map (\<lambda>k. rand k < 1 / 2) [0..<length graph],
                edges = [] \<rparr>
      in case find_edges gl m of
           Inl err \<Rightarrow> Inl err
         | Inr e \<Rightarrow> Inr (m\<lparr>edges := e\<rparr>))"

subsection \<open>energy\<close>

text \<open>One pass of the inner loop of \<open>energy\<close>: \<open>interaction_term += occ[i]*occ[j]\<close> under
  \<open>if self.edges[i,j]\<close>; the product of two numpy booleans is their conjunction.\<close>

definition energy_row :: "bool list list \<Rightarrow> bool list \<Rightarrow> nat \<Rightarrow> nat \<Rightarrow> int \<Rightarrow> int" where
  "energy_row e occ n i interaction_term =
     fold (\<lambda>j acc. if e ! i ! j then acc + of_bool (occ ! i \<and> occ ! j) else acc)
       [Suc i..<n] interaction_term"

text \<open>The outer loop, on the pair \<open>(interaction_term, vertex_term)\<close>.\<close>

definition energy_loop :: "bool list list \<Rightarrow> bool list \<Rightarrow> nat \<Rightarrow> int \<times> int" where
  "energy_loop e occ n =
     fold (\<lambda>i (interaction_term, vertex_term).
             (energy_row e occ n i interaction_term, vertex_term + of_bool (occ ! i)))
       [0..<n - 1] (0, 0)"

text \<open>
  After the loops the code adds \<open>self.occupations[self.num_vertices-1]\<close>: with no vertex
  this is index \<open>-1\<close> of an empty array, an IndexError. The name \<open>u\<close> is looked up last,
  in the \<open>return\<close> statement.
\<close>

definition energy :: "globals \<Rightarrow> udmis \<Rightarrow> error + real" where
  "energy gl m =
     (let n = num_vertices m;
          (interaction_term, vertex_term) = energy_loop (edges m) (occupations m) n
      in if n = 0 then Inl IndexError
         else let vertex_term = vertex_term + of_bool (occupations m ! (n - 1))
              in case g_u gl of
                   None \<Rightarrow> Inl NameError
                 | Some u \<Rightarrow> Inr (u * real_of_int interaction_term - real_of_int vertex_term))"

subsection \<open>energy_diff\<close>

text \<open>\<open>np.where(self.edges[i,:])[0]\<close>: the column indices of the true entries of row \<open>i\<close>.\<close>

definition connections :: "bool list list \<Rightarrow> nat \<Rightarrow> nat list" where
  "connections e i = filter (\<lambda>j. e ! i ! j) [0..<length (e ! i)]"

text \<open>\<open>sum(self.occupations[connections])\<close>\<close>

definition num_adjacent_occupied :: "udmis \<Rightarrow> nat \<Rightarrow> int" where
  "num_adjacent_occupied m i =
     sum_list (map (\<lambda>j. of_bool (occupations m ! j)) (connections (edges m) i))"

definition energy_diff :: "globals \<Rightarrow> udmis \<Rightarrow> nat \<Rightarrow> error + real" where
  "energy_diff gl m i =
     (if \<not> i < length (edges m) then Inl IndexError
      else case g_u gl of
             None \<Rightarrow> Inl NameError
           | Some u \<Rightarrow>
               if occupations m ! i
               then Inr (- u * real_of_int (num_adjacent_occupied m i) + 1)
               else Inr (u * real_of_int (num_adjacent_occupied m i) + (- 1)))"

text \<open>Toggling occupation \<open>i\<close>: the change of configuration that \<open>energy_diff(i)\<close> prices.\<close>

definition flip :: "udmis \<Rightarrow> nat \<Rightarrow> udmis" where
  "flip m i = m\<lparr>occupations := (occupations m)[i := \<not> occupations m ! i]\<rparr>"

text \<open>What the constructor establishes about the shapes of the arrays.\<close>

definition well_formed :: "udmis \<Rightarrow> bool" where
  "well_formed m \<longleftrightarrow>
     length (occupations m) = num_vertices m \<and>
     length (edges m) = num_vertices m \<and>
     list_all (\<lambda>row. length row = num_vertices m) (edges m)"

text \<open>An \<open>n\<close> by \<open>n\<close> array.\<close>

definition shape :: "nat \<Rightarrow> bool list list \<Rightarrow> bool" where
  "shape n e \<longleftrightarrow> length e = n \<and> (\<forall>i<n. length (e ! i) = n)"

subsection \<open>The notebook's instance and three small ones\<close>

text \<open>
  Cell 4 binds \<open>u = 1.35\<close> and \<open>graph\<close> to six coordinate pairs and calls
  \<open>UDMIS(u, graph)\<close>. The decimal literals are written as fractions. \<open>low_draws\<close> is a
  run of the random generator in which every draw is below one half, so that every
  vertex starts occupied. \<open>notebook_instance\<close> is the object the constructor then builds
  (lemma \<open>notebook_init\<close>).
\<close>

definition notebook_u :: real where
  "notebook_u = 135 / 100"

definition notebook_graph :: "(real \<times> real) list" where
  "notebook_graph =
     [(3461717838632017 / 10000000000000000, 14984640297338632 / 10000000000000000),
      (6316400411846113 / 10000000000000000, 25754677320579895 / 10000000000000000),
      (13906262250927481 / 10000000000000000, 2164978861396621 / 1000000000000000),
      (66436005100802 / 100000000000000, 6717919819739032 / 10000000000000000),
      (8663329771713457 / 10000000000000000, 33876341010035995 / 10000000000000000),
      (11643107343501296 / 10000000000000000, 10823066243402013 / 10000000000000000)]"

definition notebook_globals :: globals where
  "notebook_globals = \<lparr> g_u = Some notebook_u, g_graph = Some notebook_graph \<rparr>"

definition low_draws :: "nat \<Rightarrow> real" where
  "low_draws k = 0"

definition notebook_instance :: udmis where
  "notebook_instance =
     \<lparr> self_u = notebook_u, self_graph = notebook_graph, num_vertices = 6,
       occupations = [True, True, True, True, True, True],
       edges = [[False, False, False, True, False, True],
                [False, False, True, False, True, False],
                [False, True, False, False, False, False],
                [True, False, False, False, False, True],
                [False, True, False, False, False, False],
                [True, False, False, True, False, False]] \<rparr>"

text \<open>
  The object built from an empty coordinate list (lemma \<open>empty_init\<close>), the one built
  from a single point with \<open>u = -1\<close>, and the one built from two points at distance
  exactly one (lemma \<open>unit_pair_init\<close>). In \<open>unbound_globals\<close> neither name is bound.
\<close>

definition empty_instance :: udmis where
  "empty_instance =
     \<lparr> self_u = notebook_u, self_graph = [], num_vertices = 0, occupations = [], edges = [] \<rparr>"

definition one_vertex_instance :: udmis where
  "one_vertex_instance =
     \<lparr> self_u = - 1, self_graph = [(0, 0)], num_vertices = 1, occupations = [True],
       edges = [[False]] \<rparr>"

definition unit_pair_graph :: "(real \<times> real) list" where
  "unit_pair_graph = [(0, 0), (1, 0)]"



definition unbound_globals :: globals where
  "unbound_globals = \<lparr> g_u = None, g_graph = None \<rparr>"

subsection \<open>The scope the attributes would give\<close>

text \<open>
  The constructor stores its arguments in \<open>self.u\<close> and \<open>self.graph\<close>. A method that
  read those attributes would behave as the source's methods do in a scope where
  the bare names \<open>u\<close> and \<open>graph\<close> are bound to them; \<open>attribute_scope\<close> is that scope.
\<close>

definition attribute_scope :: "udmis \<Rightarrow> globals" where
  "attribute_scope m = \<lparr> g_u = Some (self_u m), g_graph = Some (self_graph m) \<rparr>"

subsection \<open>The annealing loop (cell 5)\<close>

text \<open>
  \<open>t = np.arange(N+1)\<close>, \<open>T = T_i * ((T_f/T_i) ** (t/N))\<close>. An entry of a numpy float
  array is a real number or not a finite number (nan, infinity); the latter is \<open>None\<close>.

  \<open>np_power\<close> is numpy's power of a Python float and an array entry: for a positive base
  the real power; \<open>pow(1, nan) = 1\<close> and \<open>pow(x, 0) = 1\<close>; a zero base gives \<open>0\<close> for a
  positive exponent; a negative base has a value for a whole exponent only.
\<close>

definition np_power :: "real \<Rightarrow> real option \<Rightarrow> real option" where
  "np_power b x =
     (case x of
        None \<Rightarrow> if b = 1 then Some 1 else None
      | Some e \<Rightarrow>
          if 0 < b then Some (b powr e)
          else if e = 0 then Some 1
          else if b = 0 then (if 0 < e then Some 0 else None)
          else if of_int \<lfloor>e\<rfloor> = e then Some (b powi \<lfloor>e\<rfloor>) else None)"

text \<open>
  \<open>T_f/T_i\<close> divides two Python numbers: ZeroDivisionError for \<open>T_i = 0\<close>, before
  anything else is computed. \<open>t/N\<close> divides an array by a number: for \<open>N = 0\<close> the
  array is \<open>[0]\<close> and its quotient is nan, with a warning and no exception.
\<close>

definition schedule :: "real \<Rightarrow> real \<Rightarrow> nat \<Rightarrow> error + real option list" where
  "schedule T_i T_f N =
     (if T_i = 0 then Inl ZeroDivisionError
      else Inr (map (\<lambda>t. map_option ((*) T_i)
                            (np_power (T_f / T_i)
                               (if N = 0 then None else Some (real t / real N))))
                  [0..<N + 1]))"

text \<open>
  \<open>for t in range(N): temp = T[t]; E = udmis.mc_step(T=temp)\<close>. The method \<open>mc_step\<close>
  is defined in \<open>abstract_udmis.py\<close>, so the loop takes it as a parameter: from a
  temperature and the state of the object to an exception or the returned energy
  and the new state. \<open>E\<close> is unbound before the first pass. An exception ends the
  loop. The \<open>print\<close> every hundredth pass is output only and is left out.
\<close>

fun anneal_loop ::
  "(real option \<Rightarrow> 's \<Rightarrow> error + 'e \<times> 's) \<Rightarrow> real option list \<Rightarrow> nat list \<Rightarrow>
   'e option \<times> 's \<Rightarrow> error + 'e option \<times> 's" where
  "anneal_loop mc_step T [] (E, s) = Inr (E, s)"
| "anneal_loop mc_step T (t # ts) (E, s) =
     (case mc_step (T ! t) s of
        Inl err \<Rightarrow> Inl err
      | Inr (E', s') \<Rightarrow> anneal_loop mc_step T ts (Some E', s'))"

definition anneal ::
  "(real option \<Rightarrow> 's \<Rightarrow> error + 'e \<times> 's) \<Rightarrow> real \<Rightarrow> real \<Rightarrow> nat \<Rightarrow> 's \<Rightarrow>
   error + 'e option \<times> 's" where
  "anneal mc_step T_i T_f N s =
     (case schedule T_i T_f N of
        Inl err \<Rightarrow> Inl err
      | Inr T \<Rightarrow> anneal_loop mc_step T [0..<N] (None, s))"

text \<open>
  What section 4.4 of the specification asks of the scheduler, in its words: the
  step engine is driven once for each temperature of a sequence, in order.
\<close>

fun drive_steps ::
  "(real option \<Rightarrow> 's \<Rightarrow> error + 'e \<times> 's) \<Rightarrow> real option list \<Rightarrow>
   'e option \<times> 's \<Rightarrow> error + 'e option \<times> 's" where
  "drive_steps mc_step [] (E, s) = Inr (E, s)"
| "drive_steps mc_step (temp # temps) (E, s) =
     (case mc_step temp s of
        Inl err \<Rightarrow> Inl err
      | Inr (E', s') \<Rightarrow> drive_steps mc_step temps (Some E', s'))"

text \<open>A step function for examples: it counts its calls.\<close>

definition idle_step :: "real option \<Rightarrow> nat \<Rightarrow> error + real \<times> nat" where
  "idle_step temp s = Inr (0, Suc s)"

subsection \<open>The step operation\<close>

text \<open>
  Modelled from the spec: the step operation (\<open>mc_step\<close> of \<open>abstract_udmis.py\<close>, which
  is not among the source files), after section 4.3 of the specification. The division
  inside the acceptance probability raises for a zero divisor, as Python's does.
\<close>

definition float_div :: "real \<Rightarrow> real \<Rightarrow> error + real" where
  "float_div a b = (if b = 0 then Inl ZeroDivisionError else Inr (a / b))"

text \<open>
  Modelled from the spec: the acceptance rule of section 4.3. For \<open>T \<le> 0\<close> the strict
  greedy rule; otherwise a move with \<open>delta \<le> 0\<close> is accepted, and one with
  \<open>delta > 0\<close> when the uniform draw \<open>r\<close> is below \<open>exp(-delta/T)\<close>.
\<close>

definition accept_flip :: "real \<Rightarrow> real \<Rightarrow> real \<Rightarrow> error + bool" where
  "accept_flip T delta r =
     (if T \<le> 0 then Inr (delta \<le> 0)
      else if delta \<le> 0 then Inr True
      else case float_div (- delta) T of
             Inl err \<Rightarrow> Inl err
           | Inr q \<Rightarrow> Inr (r < exp q))"

text \<open>
  Modelled from the spec: one step at temperature \<open>T\<close>, for the vertex \<open>i\<close> and the
  draw \<open>r\<close> that the random source yields: the delta of \<open>energy_diff\<close>, the acceptance
  rule, the toggle on acceptance, and the total energy of the resulting configuration.
\<close>

definition step :: "globals \<Rightarrow> udmis \<Rightarrow> nat \<Rightarrow> real \<Rightarrow> real \<Rightarrow> error + real \<times> udmis" where
  "step gl m i r T =
     (case energy_diff gl m i of
        Inl err \<Rightarrow> Inl err
      | Inr delta \<Rightarrow>
          (case accept_flip T delta r of
             Inl err \<Rightarrow> Inl err
           | Inr a \<Rightarrow>
               (let m' = (if a then flip m i else m)
                in case energy gl m' of
                     Inl err \<Rightarrow> Inl err
                   | Inr E \<Rightarrow> Inr (E, m'))))"

section \<open>Auxiliary facts\<close>

subsection \<open>The adjacency matrix\<close>

lemma shape_replicate: "shape n (replicate n (replicate n False))"
  by (simp add: shape_def)

lemma shape_set_true: "shape n e \<Longrightarrow> shape n (set_true e i j)"
  by (cases "i < n") (auto simp: shape_def set_true_def nth_list_update)

lemma nth_set_true:
  "shape n e \<Longrightarrow> i < n \<Longrightarrow> j < n \<Longrightarrow> a < n \<Longrightarrow> b < n \<Longrightarrow>
   set_true e i j ! a ! b \<longleftrightarrow> e ! a ! b \<or> (a = i \<and> b = j)"
  by (auto simp: shape_def set_true_def nth_list_update)

lemma find_edges_inner_spec:
  assumes "g_graph gl = Some gg" and "shape n e" and "i < n" and "\<forall>j\<in>set js. j < n"
    and "find_edges_inner gl i p js e = Inr e'"
  shows "shape n e' \<and> (\<forall>j\<in>set js. j < length gg) \<and>
         (\<forall>a<n. \<forall>b<n. e' ! a ! b \<longleftrightarrow>
            e ! a ! b \<or> (\<exists>j\<in>set js. (a = i \<and> b = j \<or> a = j \<and> b = i) \<and> dij p (gg ! j) \<le> 1))"
  using assms
proof (induction js arbitrary: e)
  case Nil
  then show ?case by simp
next
  case (Cons j js)
  from Cons.prems have jn: "j < n" by simp
  from Cons.prems(5) Cons.prems(1) have jg: "j < length gg"
    by (auto simp: graph_item_def split: if_splits)
  let ?e1 = "if dij p (gg ! j) \<le> 1 then set_true (set_true e i j) j i else e"
  from Cons.prems(5) Cons.prems(1) jg have run: "find_edges_inner gl i p js ?e1 = Inr e'"
    by (simp add: graph_item_def)
  have sh1: "shape n ?e1" using Cons.prems(2) by (simp add: shape_set_true)
  have e1: "\<forall>a<n. \<forall>b<n. ?e1 ! a ! b \<longleftrightarrow>
       e ! a ! b \<or> ((a = i \<and> b = j \<or> a = j \<and> b = i) \<and> dij p (gg ! j) \<le> 1)"
  proof (intro allI impI)
    fix a b assume ab: "a < n" "b < n"
    have "set_true (set_true e i j) j i ! a ! b \<longleftrightarrow>
          set_true e i j ! a ! b \<or> (a = j \<and> b = i)"
      by (rule nth_set_true[OF shape_set_true[OF Cons.prems(2)] jn Cons.prems(3) ab])
    also have "set_true e i j ! a ! b \<longleftrightarrow> e ! a ! b \<or> (a = i \<and> b = j)"
      by (rule nth_set_true[OF Cons.prems(2) Cons.prems(3) jn ab])
    finally show "?e1 ! a ! b \<longleftrightarrow>
       e ! a ! b \<or> ((a = i \<and> b = j \<or> a = j \<and> b = i) \<and> dij p (gg ! j) \<le> 1)"
      by auto
  qed
  from Cons.IH[OF Cons.prems(1) sh1 Cons.prems(3) _ run] Cons.prems(4)
  have IH: "shape n e'" "\<forall>j\<in>set js. j < length gg"
    "\<forall>a<n. \<forall>b<n. e' ! a ! b \<longleftrightarrow>
            ?e1 ! a ! b \<or> (\<exists>j\<in>set js. (a = i \<and> b = j \<or> a = j \<and> b = i) \<and> dij p (gg ! j) \<le> 1)"
    by simp_all
  show ?case
  proof (intro conjI allI impI)
    show "shape n e'" by (rule IH(1))
    show "\<forall>j\<in>set (j # js). j < length gg" using IH(2) jg by simp
  next
    fix a b assume ab: "a < n" "b < n"
    from IH(3) ab have "e' ! a ! b \<longleftrightarrow>
            ?e1 ! a ! b \<or> (\<exists>j\<in>set js. (a = i \<and> b = j \<or> a = j \<and> b = i) \<and> dij p (gg ! j) \<le> 1)"
      by blast
    also from e1 ab have "?e1 ! a ! b \<longleftrightarrow>
       e ! a ! b \<or> ((a = i \<and> b = j \<or> a = j \<and> b = i) \<and> dij p (gg ! j) \<le> 1)" by blast
    finally show "e' ! a ! b \<longleftrightarrow>
            e ! a ! b \<or> (\<exists>j\<in>set (j # js). (a = i \<and> b = j \<or> a = j \<and> b = i) \<and> dij p (gg ! j) \<le> 1)"
      by auto
  qed
qed

lemma find_edges_outer_spec:
  assumes "g_graph gl = Some gg" and "shape n e" and "\<forall>i\<in>set is. i < n"
    and "find_edges_outer gl n is e = Inr e'"
  shows "shape n e' \<and> (\<forall>i\<in>set is. \<forall>j. i < j \<and> j < n \<longrightarrow> j < length gg) \<and>
         (\<forall>i\<in>set is. i < length gg) \<and>
         (\<forall>a<n. \<forall>b<n. e' ! a ! b \<longleftrightarrow>
            e ! a ! b \<or> (\<exists>i\<in>set is. \<exists>j. i < j \<and> j < n \<and>
               (a = i \<and> b = j \<or> a = j \<and> b = i) \<and> dij (gg ! i) (gg ! j) \<le> 1))"
  using assms
proof (induction "is" arbitrary: e)
  case Nil
  then show ?case by simp
next
  case (Cons i "is")
  from Cons.prems have i_n: "i < n" by simp
  from Cons.prems(4) Cons.prems(1) have ig: "i < length gg"
    by (auto simp: graph_item_def split: if_splits)
  from Cons.prems(4) Cons.prems(1) ig obtain e1 where
    inner: "find_edges_inner gl i (gg ! i) [Suc i..<n] e = Inr e1"
    and rest: "find_edges_outer gl n is e1 = Inr e'"
    by (auto simp: graph_item_def split: sum.splits)
  from find_edges_inner_spec[OF Cons.prems(1,2) i_n _ inner]
  have I: "shape n e1" "\<forall>j\<in>set [Suc i..<n]. j < length gg"
    "\<forall>a<n. \<forall>b<n. e1 ! a ! b \<longleftrightarrow>
            e ! a ! b \<or> (\<exists>j\<in>set [Suc i..<n]. (a = i \<and> b = j \<or> a = j \<and> b = i) \<and> dij (gg ! i) (gg ! j) \<le> 1)"
    by simp_all
  from Cons.IH[OF Cons.prems(1) I(1) _ rest] Cons.prems(3)
  have IH: "shape n e'" "\<forall>i\<in>set is. \<forall>j. i < j \<and> j < n \<longrightarrow> j < length gg"
    "\<forall>i\<in>set is. i < length gg"
    "\<forall>a<n. \<forall>b<n. e' ! a ! b \<longleftrightarrow>
            e1 ! a ! b \<or> (\<exists>i\<in>set is. \<exists>j. i < j \<and> j < n \<and>
               (a = i \<and> b = j \<or> a = j \<and> b = i) \<and> dij (gg ! i) (gg ! j) \<le> 1)"
    by simp_all
  show ?case
  proof (intro conjI allI impI)
    show "shape n e'" by (rule IH(1))
    show "\<forall>i\<in>set (i # is). \<forall>j. i < j \<and> j < n \<longrightarrow> j < length gg"
      using IH(2) I(2) by auto
    show "\<forall>i\<in>set (i # is). i < length gg" using IH(3) ig by simp
  next
    fix a b assume ab: "a < n" "b < n"
    from IH(4) ab have "e' ! a ! b \<longleftrightarrow>
            e1 ! a ! b \<or> (\<exists>i\<in>set is. \<exists>j. i < j \<and> j < n \<and>
               (a = i \<and> b = j \<or> a = j \<and> b = i) \<and> dij (gg ! i) (gg ! j) \<le> 1)" by blast
    also from I(3) ab have "e1 ! a ! b \<longleftrightarrow>
       e ! a ! b \<or> (\<exists>j. i < j \<and> j < n \<and> (a = i \<and> b = j \<or> a = j \<and> b = i) \<and> dij (gg ! i) (gg ! j) \<le> 1)"
      by auto
    finally show "e' ! a ! b \<longleftrightarrow>
            e ! a ! b \<or> (\<exists>i\<in>set (i # is). \<exists>j. i < j \<and> j < n \<and>
               (a = i \<and> b = j \<or> a = j \<and> b = i) \<and> dij (gg ! i) (gg ! j) \<le> 1)"
      by auto
  qed
qed

lemma find_edges_outer_unbound:
  "g_graph gl = None \<Longrightarrow> find_edges_outer gl n is e = Inr e' \<Longrightarrow> is = [] \<and> e' = e"
  by (cases "is") (auto simp: graph_item_def)

lemma dij_commute: "dij p q = dij q p"
  by (simp add: dij_def power2_commute)

lemma find_edges_Some:
  assumes "g_graph gl = Some gg" and "find_edges gl m = Inr e"
  shows "shape (num_vertices m) e \<and> (2 \<le> num_vertices m \<longrightarrow> num_vertices m \<le> length gg) \<and>
    (\<forall>a<num_vertices m. \<forall>b<num_vertices m.
        e ! a ! b \<longleftrightarrow> a \<noteq> b \<and> dij (gg ! a) (gg ! b) \<le> 1)"
proof -
  let ?n = "num_vertices m"
  from assms(2) have run: "find_edges_outer gl ?n [0..<?n - 1] (replicate ?n (replicate ?n False)) = Inr e"
    by (simp add: find_edges_def Let_def)
  have "\<forall>i\<in>set [0..<?n - 1]. i < ?n" by auto
  note R = find_edges_outer_spec[OF assms(1) shape_replicate this run]
  have S: "shape ?n e" "\<forall>i\<in>set [0..<?n - 1]. \<forall>j. i < j \<and> j < ?n \<longrightarrow> j < length gg"
    "\<forall>a<?n. \<forall>b<?n. e ! a ! b \<longleftrightarrow>
            replicate ?n (replicate ?n False) ! a ! b \<or> (\<exists>i\<in>set [0..<?n - 1]. \<exists>j. i < j \<and> j < ?n \<and>
               (a = i \<and> b = j \<or> a = j \<and> b = i) \<and> dij (gg ! i) (gg ! j) \<le> 1)"
    using R by blast+
  have len: "2 \<le> ?n \<longrightarrow> ?n \<le> length gg"
  proof
    assume "2 \<le> ?n"
    then have "0 \<in> set [0..<?n - 1]" "0 < ?n - 1" "?n - 1 < ?n" by auto
    with S(2) have "?n - 1 < length gg" by blast
    then show "?n \<le> length gg" by simp
  qed
  have "e ! a ! b \<longleftrightarrow> a \<noteq> b \<and> dij (gg ! a) (gg ! b) \<le> 1" if ab: "a < ?n" "b < ?n" for a b
  proof -
    from S(3) ab have "e ! a ! b \<longleftrightarrow> (\<exists>i\<in>set [0..<?n - 1]. \<exists>j. i < j \<and> j < ?n \<and>
               (a = i \<and> b = j \<or> a = j \<and> b = i) \<and> dij (gg ! i) (gg ! j) \<le> 1)"
      by simp
    also have "\<dots> \<longleftrightarrow> a \<noteq> b \<and> dij (gg ! a) (gg ! b) \<le> 1"
    proof (cases a b rule: linorder_cases)
      case less
      with ab show ?thesis by (auto simp: dij_commute)
    next
      case equal
      then show ?thesis by auto
    next
      case greater
      with ab have "b \<in> set [0..<?n - 1]" by auto
      moreover have "dij (gg ! a) (gg ! b) = dij (gg ! b) (gg ! a)" by (rule dij_commute)
      ultimately show ?thesis using greater ab by auto
    
    qed
    finally show ?thesis .
  qed
  with S(1) len show ?thesis by blast
qed

lemma find_edges_None:
  assumes "g_graph gl = None" and "find_edges gl m = Inr e"
  shows "num_vertices m \<le> 1 \<and> e = replicate (num_vertices m) (replicate (num_vertices m) False)"
proof -
  let ?n = "num_vertices m"
  from assms(2) have run: "find_edges_outer gl ?n [0..<?n - 1] (replicate ?n (replicate ?n False)) = Inr e"
    by (simp add: find_edges_def Let_def)
  from find_edges_outer_unbound[OF assms(1) run] show ?thesis by auto
qed

lemma find_edges_shape: "find_edges gl m = Inr e \<Longrightarrow> shape (num_vertices m) e"
  by (cases "g_graph gl") (auto dest: find_edges_None find_edges_Some simp: shape_replicate)

lemma find_edges_symmetric:
  assumes "find_edges gl m = Inr e" and "a < num_vertices m" and "b < num_vertices m"
  shows "e ! a ! b = e ! b ! a"
proof (cases "g_graph gl")
  case None
  from find_edges_None[OF None assms(1)] assms(2,3) show ?thesis by simp
next
  case (Some gg)
  from find_edges_Some[OF Some assms(1)] assms(2,3)
  have "e ! a ! b \<longleftrightarrow> a \<noteq> b \<and> dij (gg ! a) (gg ! b) \<le> 1"
    and "e ! b ! a \<longleftrightarrow> b \<noteq> a \<and> dij (gg ! b) (gg ! a) \<le> 1" by blast+
  then show ?thesis using dij_commute[of "gg ! a" "gg ! b"] by auto
qed

lemma find_edges_irreflexive:
  assumes "find_edges gl m = Inr e" and "a < num_vertices m"
  shows "\<not> e ! a ! a"
proof (cases "g_graph gl")
  case None
  from find_edges_None[OF None assms(1)] assms(2) show ?thesis by simp
next
  case (Some gg)
  from find_edges_Some[OF Some assms(1)] assms(2) show ?thesis by blast
qed

lemma graph_item_cong: "g_graph gl = g_graph gl' \<Longrightarrow> graph_item gl i = graph_item gl' i"
  by (simp add: graph_item_def)

lemma find_edges_inner_cong:
  "g_graph gl = g_graph gl' \<Longrightarrow> find_edges_inner gl i p js e = find_edges_inner gl' i p js e"
  by (induction js arbitrary: e) (simp_all add: graph_item_cong[of gl gl'] split: sum.splits)

lemma find_edges_outer_cong:
  "g_graph gl = g_graph gl' \<Longrightarrow> find_edges_outer gl n is e = find_edges_outer gl' n is e"
  by (induction "is" arbitrary: e)
     (simp_all add: graph_item_cong[of gl gl'] find_edges_inner_cong[of gl gl'] split: sum.splits)

lemma find_edges_cong:
  "g_graph gl = g_graph gl' \<Longrightarrow> find_edges gl m = find_edges gl' m"
  by (simp add: find_edges_def find_edges_outer_cong[of gl gl'])

subsection \<open>The loops of energy as sums\<close>

lemma fold_cond_add:
  "fold (\<lambda>j acc. if P j then acc + g j else acc) xs (a::int) =
   a + sum_list (map (\<lambda>j. if P j then g j else 0) xs)"
  by (induction xs arbitrary: a) simp_all

lemma energy_row_sum:
  "energy_row e occ n i a =
   a + (\<Sum>j = Suc i..<n. of_bool (e ! i ! j \<and> occ ! i \<and> occ ! j))"
proof -
  have "energy_row e occ n i a =
        a + sum_list (map (\<lambda>j. if e ! i ! j then of_bool (occ ! i \<and> occ ! j) else 0) [Suc i..<n])"
    unfolding energy_row_def by (rule fold_cond_add)
  also have "sum_list (map (\<lambda>j. if e ! i ! j then of_bool (occ ! i \<and> occ ! j) else 0) [Suc i..<n]) =
        (\<Sum>j = Suc i..<n. if e ! i ! j then of_bool (occ ! i \<and> occ ! j) else (0::int))"
    by (simp add: interv_sum_list_conv_sum_set_nat)
  also have "\<dots> = (\<Sum>j = Suc i..<n. of_bool (e ! i ! j \<and> occ ! i \<and> occ ! j))"
    by (rule sum.cong) auto
  finally show ?thesis .
qed

lemma fold_pair_add:
  "fold (\<lambda>i (a, b). (a + r i, b + g i)) xs (a0::int, b0::int) =
   (a0 + sum_list (map r xs), b0 + sum_list (map g xs))"
  by (induction xs arbitrary: a0 b0) simp_all

lemma energy_loop_sum:
  "energy_loop e occ n =
   (\<Sum>i = 0..<n - 1. \<Sum>j = Suc i..<n. of_bool (e ! i ! j \<and> occ ! i \<and> occ ! j),
    \<Sum>i = 0..<n - 1. of_bool (occ ! i))"
proof -
  have "energy_loop e occ n =
     fold (\<lambda>i (a, b). (a + (\<Sum>j = Suc i..<n. of_bool (e ! i ! j \<and> occ ! i \<and> occ ! j)),
                        b + of_bool (occ ! i)))
       [0..<n - 1] (0, 0)"
    unfolding energy_loop_def energy_row_sum ..
  also have "\<dots> = (0 + sum_list (map (\<lambda>i. \<Sum>j = Suc i..<n. of_bool (e ! i ! j \<and> occ ! i \<and> occ ! j)) [0..<n - 1]),
                   0 + sum_list (map (\<lambda>i. of_bool (occ ! i)) [0..<n - 1]))"
    by (rule fold_pair_add)
  finally show ?thesis by (simp add: interv_sum_list_conv_sum_set_nat)
qed

lemma energy_value:
  assumes "0 < num_vertices m" and "g_u gl = Some u"
  shows "energy gl m = Inr (u * real_of_int (\<Sum>i = 0..<num_vertices m - 1. \<Sum>j = Suc i..<num_vertices m.
              of_bool (edges m ! i ! j \<and> occupations m ! i \<and> occupations m ! j))
            - real_of_int (\<Sum>i<num_vertices m. of_bool (occupations m ! i)))"
proof -
  let ?n = "num_vertices m"
  have "{..<?n} = insert (?n - 1) {0..<?n - 1}" using assms(1) by auto
  then have "(\<Sum>i<?n. of_bool (occupations m ! i)) =
     (\<Sum>i = 0..<?n - 1. of_bool (occupations m ! i)) + (of_bool (occupations m ! (?n - 1)) :: int)"
    by simp
  then show ?thesis using assms
    by (simp add: energy_def energy_loop_sum Let_def)
qed


lemma upper_sum_full:
  "(\<Sum>i = 0..<n - 1. \<Sum>j = Suc i..<n. f i j) =
   (\<Sum>a<n. \<Sum>b<n. if a < b then f a b else (0::int))"
proof -
  have inner: "(\<Sum>j = Suc a..<n. f a j) = (\<Sum>b<n. if a < b then f a b else 0)" for a
    by (rule sum.mono_neutral_cong_left) auto
  have "(\<Sum>a<n. \<Sum>b<n. if a < b then f a b else 0) =
        (\<Sum>a = 0..<n - 1. \<Sum>b<n. if a < b then f a b else 0)"
  proof (cases n)
    case 0
    then show ?thesis by simp
  next
    case (Suc k)
    have "(\<Sum>b<Suc k. if k < b then f k b else 0) = 0"
      by (rule sum.neutral) auto
    then show ?thesis using Suc by (simp add: lessThan_atLeast0)
  qed
  then show ?thesis by (simp add: inner)
qed

lemma energy_full_sum:
  assumes "0 < num_vertices m" and "g_u gl = Some u"
  shows "energy gl m = Inr (u * real_of_int (\<Sum>a<num_vertices m. \<Sum>b<num_vertices m.
              if a < b then of_bool (edges m ! a ! b) * of_bool (occupations m ! a) * of_bool (occupations m ! b) else 0)
            - real_of_int (\<Sum>i<num_vertices m. of_bool (occupations m ! i)))"
proof -
  have "(\<Sum>i = 0..<num_vertices m - 1. \<Sum>j = Suc i..<num_vertices m.
              of_bool (edges m ! i ! j \<and> occupations m ! i \<and> occupations m ! j)) =
        (\<Sum>i = 0..<num_vertices m - 1. \<Sum>j = Suc i..<num_vertices m.
              of_bool (edges m ! i ! j) * of_bool (occupations m ! i) * of_bool (occupations m ! j) :: int)"
    by (intro sum.cong refl) auto
  then show ?thesis
    by (simp only: energy_value[OF assms] upper_sum_full)
qed


lemma energy_cong: "g_u gl = g_u gl' \<Longrightarrow> energy gl m = energy gl' m"
  by (simp add: energy_def Let_def split: prod.splits)

subsection \<open>The delta of a flip\<close>

lemma flip_delta_sum:
  fixes x :: "nat \<Rightarrow> int"
  assumes i: "i < n" and sym: "\<forall>a<n. \<forall>b<n. E a b = E b a" and irr: "\<not> E i i"
  defines "x' \<equiv> x(i := 1 - x i)"
  shows "(\<Sum>a<n. \<Sum>b<n. if a < b then of_bool (E a b) * x' a * x' b else 0) -
         (\<Sum>a<n. \<Sum>b<n. if a < b then of_bool (E a b) * x a * x b else 0) =
         (x' i - x i) * (\<Sum>b<n. of_bool (E i b) * x b)"
proof -
  let ?d = "x' i - x i"
  have tm: "(if a < b then of_bool (E a b) * x' a * x' b else 0) -
              (if a < b then of_bool (E a b) * x a * x b else 0) =
              (if a = i then (if i < b then of_bool (E i b) * ?d * x b else 0) else 0) +
              (if b = i then (if a < i then of_bool (E a i) * ?d * x a else 0) else 0)" for a b
    by (auto simp: x'_def algebra_simps)
  have "(\<Sum>a<n. \<Sum>b<n. if a < b then of_bool (E a b) * x' a * x' b else 0) -
         (\<Sum>a<n. \<Sum>b<n. if a < b then of_bool (E a b) * x a * x b else 0) =
        (\<Sum>a<n. \<Sum>b<n. (if a < b then of_bool (E a b) * x' a * x' b else 0) -
              (if a < b then of_bool (E a b) * x a * x b else 0))"
    by (simp add: sum_subtractf)
  also have "\<dots> = (\<Sum>a<n. \<Sum>b<n.
              (if a = i then (if i < b then of_bool (E i b) * ?d * x b else 0) else 0) +
              (if b = i then (if a < i then of_bool (E a i) * ?d * x a else 0) else 0))"
    by (simp only: tm)
  also have "\<dots> = (\<Sum>a<n. \<Sum>b<n. (if a = i then (if i < b then of_bool (E i b) * ?d * x b else 0) else 0)) +
                   (\<Sum>a<n. \<Sum>b<n. (if b = i then (if a < i then of_bool (E a i) * ?d * x a else 0) else 0))"
    by (simp add: sum.distrib)
  also have "(\<Sum>a<n. \<Sum>b<n. (if a = i then (if i < b then of_bool (E i b) * ?d * x b else 0) else 0)) =
             (\<Sum>b<n. if i < b then of_bool (E i b) * ?d * x b else 0)"
  proof -
    have "(\<Sum>a<n. \<Sum>b<n. (if a = i then (if i < b then of_bool (E i b) * ?d * x b else 0) else 0)) =
          (\<Sum>a<n. if a = i then (\<Sum>b<n. if i < b then of_bool (E i b) * ?d * x b else 0) else 0)"
      by (rule sum.cong) auto
    also have "\<dots> = (\<Sum>b<n. if i < b then of_bool (E i b) * ?d * x b else 0)"
      using i by (simp add: sum.delta')
    finally show ?thesis .
  qed
  also have "(\<Sum>a<n. \<Sum>b<n. (if b = i then (if a < i then of_bool (E a i) * ?d * x a else 0) else 0)) =
             (\<Sum>a<n. if a < i then of_bool (E a i) * ?d * x a else 0)"
    using i by (simp add: sum.delta')
  also have "(\<Sum>b<n. if i < b then of_bool (E i b) * ?d * x b else 0) +
             (\<Sum>a<n. if a < i then of_bool (E a i) * ?d * x a else 0) =
             (\<Sum>b<n. (if i < b then of_bool (E i b) * ?d * x b else 0) +
                       (if b < i then of_bool (E b i) * ?d * x b else 0))"
    by (simp add: sum.distrib)
  also have "\<dots> = (\<Sum>b<n. ?d * (of_bool (E i b) * x b))"
  proof (rule sum.cong)
    fix b assume "b \<in> {..<n}"
    then have "E b i = E i b" using sym i by simp
    then show "(if i < b then of_bool (E i b) * ?d * x b else 0) +
                       (if b < i then of_bool (E b i) * ?d * x b else 0) = ?d * (of_bool (E i b) * x b)"
      using irr by (cases i b rule: linorder_cases) auto
  qed simp
  also have "\<dots> = ?d * (\<Sum>b<n. of_bool (E i b) * x b)"
    by (rule sum_distrib_left[symmetric])
  finally show ?thesis .
qed

lemma well_formed_row: "well_formed m \<Longrightarrow> i < num_vertices m \<Longrightarrow> length (edges m ! i) = num_vertices m"
  by (simp add: well_formed_def list_all_length)

lemma num_adjacent_occupied_sum:
  assumes "well_formed m" and "i < num_vertices m"
  shows "num_adjacent_occupied m i =
         (\<Sum>b<num_vertices m. of_bool (edges m ! i ! b) * of_bool (occupations m ! b))"
proof -
  let ?n = "num_vertices m"
  have "num_adjacent_occupied m i =
        sum_list (map (\<lambda>j. if edges m ! i ! j then of_bool (occupations m ! j) else 0) [0..<?n])"
    by (simp add: num_adjacent_occupied_def connections_def well_formed_row[OF assms]
        sum_list_map_filter')
  also have "\<dots> = (\<Sum>j = 0..<?n. if edges m ! i ! j then of_bool (occupations m ! j) else (0::int))"
    by (simp add: interv_sum_list_conv_sum_set_nat)
  also have "\<dots> = (\<Sum>b<?n. of_bool (edges m ! i ! b) * of_bool (occupations m ! b))"
    unfolding lessThan_atLeast0 by (rule sum.cong) auto
  finally show ?thesis .
qed


lemma energy_diff_value:
  assumes "well_formed m" and "i < num_vertices m" and "g_u gl = Some u"
  shows "energy_diff gl m i =
         Inr (if occupations m ! i then - u * real_of_int (num_adjacent_occupied m i) + 1
              else u * real_of_int (num_adjacent_occupied m i) - 1)"
  using assms by (simp add: energy_diff_def well_formed_def)

lemma energy_diff_cong: "g_u gl = g_u gl' \<Longrightarrow> energy_diff gl m i = energy_diff gl' m i"
  by (simp add: energy_diff_def)

lemma well_formed_flip: "well_formed m \<Longrightarrow> well_formed (flip m i)"
  by (simp add: well_formed_def flip_def)

lemma energy_flip_general:
  assumes wf: "well_formed m" and i: "i < num_vertices m" and u: "g_u gl = Some u"
    and sym: "\<forall>a<num_vertices m. \<forall>b<num_vertices m. edges m ! a ! b = edges m ! b ! a"
    and irr: "\<not> edges m ! i ! i"
  shows "\<exists>E E'. energy gl m = Inr E \<and> energy gl (flip m i) = Inr E' \<and>
                 energy_diff gl m i = Inr (E' - E)"
proof -
  let ?n = "num_vertices m"
  let ?e = "\<lambda>a b. edges m ! a ! b"
  let ?x = "\<lambda>a. of_bool (occupations m ! a) :: int"
  let ?x' = "?x(i := 1 - ?x i)"
  let ?I = "\<lambda>x. (\<Sum>a<?n. \<Sum>b<?n. if a < b then of_bool (?e a b) * x a * x b else (0::int))"
  let ?k = "\<Sum>b<?n. of_bool (?e i b) * ?x b"
  have n0: "0 < ?n" using i by simp
  have len: "length (occupations m) = ?n" using wf by (simp add: well_formed_def)
  have occ': "of_bool (occupations (flip m i) ! a) = ?x' a" if "a < ?n" for a
    using that len by (simp add: flip_def nth_list_update)
  have nv: "num_vertices (flip m i) = ?n" and ed: "edges (flip m i) = edges m"
    by (simp_all add: flip_def)
  have E: "energy gl m = Inr (u * real_of_int (?I ?x) - real_of_int (\<Sum>a<?n. ?x a))"
    by (rule energy_full_sum[OF n0 u])
  have "energy gl (flip m i) = Inr (u * real_of_int (\<Sum>a<?n. \<Sum>b<?n.
              if a < b then of_bool (?e a b) * of_bool (occupations (flip m i) ! a) * of_bool (occupations (flip m i) ! b) else 0)
            - real_of_int (\<Sum>a<?n. of_bool (occupations (flip m i) ! a)))"
    by (rule energy_full_sum[of "flip m i" gl u, unfolded nv ed, OF n0 u])
  also have "(\<Sum>a<?n. \<Sum>b<?n.
              if a < b then of_bool (?e a b) * of_bool (occupations (flip m i) ! a) * of_bool (occupations (flip m i) ! b) else 0) = ?I ?x'"
    by (intro sum.cong refl) (simp add: occ')
  also have "(\<Sum>a<?n. of_bool (occupations (flip m i) ! a)) = (\<Sum>a<?n. ?x' a)"
    by (intro sum.cong refl) (simp add: occ')
  finally have E': "energy gl (flip m i) = Inr (u * real_of_int (?I ?x') - real_of_int (\<Sum>a<?n. ?x' a))" .
  have dI: "?I ?x' - ?I ?x = (?x' i - ?x i) * ?k"
    by (rule flip_delta_sum[OF i sym irr])
  have dV: "(\<Sum>a<?n. ?x' a) - (\<Sum>a<?n. ?x a) = ?x' i - ?x i"
  proof -
    have "(\<Sum>a<?n. ?x' a) - (\<Sum>a<?n. ?x a) = (\<Sum>a<?n. ?x' a - ?x a)"
      by (simp add: sum_subtractf)
    also have "\<dots> = (\<Sum>a<?n. if a = i then ?x' i - ?x i else 0)"
      by (intro sum.cong refl) simp
    also have "\<dots> = ?x' i - ?x i" using i by (simp add: sum.delta')
    finally show ?thesis .
  qed
  have k: "num_adjacent_occupied m i = ?k"
    by (rule num_adjacent_occupied_sum[OF wf i])
  have "(u * real_of_int (?I ?x') - real_of_int (\<Sum>a<?n. ?x' a)) -
        (u * real_of_int (?I ?x) - real_of_int (\<Sum>a<?n. ?x a)) =
        u * real_of_int (?I ?x' - ?I ?x) - real_of_int ((\<Sum>a<?n. ?x' a) - (\<Sum>a<?n. ?x a))"
    by (simp add: algebra_simps)
  also have "\<dots> = u * real_of_int ((?x' i - ?x i) * ?k) - real_of_int (?x' i - ?x i)"
    by (simp only: dI dV)
  also have "\<dots> = (if occupations m ! i then - u * real_of_int ?k + 1 else u * real_of_int ?k - 1)"
    by simp
  finally have "energy_diff gl m i =
     Inr ((u * real_of_int (?I ?x') - real_of_int (\<Sum>a<?n. ?x' a)) -
        (u * real_of_int (?I ?x) - real_of_int (\<Sum>a<?n. ?x a)))"
    by (simp only: energy_diff_value[OF wf i u] k)
  with E E' show ?thesis by blast
qed

subsection \<open>What the constructor returns\<close>

lemma UDMIS_init_fields:
  assumes "UDMIS_init gl rand u graph = Inr m"
  shows "self_u m = u" "self_graph m = graph" "num_vertices m = length graph"
    "occupations m = map (\<lambda>k. rand k < 1 / 2) [0..<length graph]"
    "find_edges gl m = Inr (edges m)"
  using assms by (auto simp: UDMIS_init_def find_edges_def Let_def split: sum.splits)

lemma shape_well_formed:
  "shape (num_vertices m) (edges m) \<Longrightarrow> length (occupations m) = num_vertices m \<Longrightarrow> well_formed m"
  by (auto simp: shape_def well_formed_def list_all_length)

lemma UDMIS_init_well_formed:
  assumes "UDMIS_init gl rand u graph = Inr m"
  shows "well_formed m"
  using UDMIS_init_fields[OF assms] find_edges_shape[of gl m "edges m"]
  by (simp add: shape_well_formed)

subsection \<open>The example instances, evaluated\<close>

lemma notebook_init:
  "UDMIS_init notebook_globals low_draws notebook_u notebook_graph = Inr notebook_instance"
  by (simp add: UDMIS_init_def find_edges_def notebook_globals_def notebook_graph_def
      notebook_instance_def low_draws_def graph_item_def dij_def set_true_def upt_rec
      power2_eq_square eval_nat_numeral)



lemma unbound_init:
  "UDMIS_init unbound_globals low_draws u unit_pair_graph = Inl NameError"
  by (simp add: UDMIS_init_def find_edges_def unbound_globals_def unit_pair_graph_def
      graph_item_def upt_rec)


lemma notebook_energy_value:
  "energy notebook_globals (notebook_instance\<lparr>occupations := [False, False, True, True, True, False]\<rparr>) = Inr (- 3)"
  by (simp add: energy_def energy_loop_def energy_row_def notebook_instance_def notebook_globals_def
     upt_rec eval_nat_numeral)

lemma notebook_energy_all: "energy gl notebook_instance =
   (case g_u gl of None \<Rightarrow> Inl NameError | Some u \<Rightarrow> Inr (u * 5 - 6))"
  by (simp add: energy_def energy_loop_def energy_row_def notebook_instance_def
     upt_rec eval_nat_numeral split: option.splits)

lemma two_vertex_edges:
  "find_edges \<lparr> g_u = x, g_graph = Some [(0, 0), (a, 0)] \<rparr>
     \<lparr> self_u = v, self_graph = g, num_vertices = 2, occupations = occ, edges = e \<rparr> =
   Inr (if \<bar>a\<bar> \<le> 1 then [[False, True], [True, False]] else [[False, False], [False, False]])"
  by (simp add: find_edges_def graph_item_def dij_def set_true_def upt_rec eval_nat_numeral)

subsection \<open>The annealing loop\<close>

lemma anneal_loop_drive:
  "anneal_loop mc_step T ts st = drive_steps mc_step (map ((!) T) ts) st"
proof (induction ts arbitrary: st)
  case Nil
  show ?case by (cases st) simp
next
  case (Cons t ts)
  show ?case by (cases st) (simp add: Cons.IH split: sum.splits prod.splits)
qed

lemma schedule_entry:
  assumes "0 < T_i" and "0 < T_f" and "t < N"
  shows "map (\<lambda>t. map_option ((*) T_i)
                            (np_power (T_f / T_i)
                               (if N = 0 then None else Some (real t / real N))))
                  [0..<N + 1] ! t = Some (T_i * (T_f / T_i) powr (real t / real N))"
proof -
  have "t < length [0..<N + 1]" using assms(3) by simp
  then have "map (\<lambda>t. map_option ((*) T_i)
                            (np_power (T_f / T_i)
                               (if N = 0 then None else Some (real t / real N))))
                  [0..<N + 1] ! t =
     map_option ((*) T_i) (np_power (T_f / T_i) (if N = 0 then None else Some (real ([0..<N + 1] ! t) / real N)))"
    by (rule nth_map)
  also have "[0..<N + 1] ! t = t" using assms(3) by (simp del: upt_Suc add: nth_upt)
  finally show ?thesis using assms by (simp add: np_power_def)
qed

section \<open>The energy model\<close>

text \<open>
  C1 (delta/full consistency). Take any instance the constructor has built, any bound
  value of the global \<open>u\<close>, any configuration \<open>occ\<close> of the right length in place of
  the random one, and any vertex \<open>i\<close>. Then \<open>energy()\<close> returns before and after
  toggling occupation \<open>i\<close>, \<open>energy_diff(i)\<close> returns on the configuration before the
  toggle, and its value is exactly the energy after minus the energy before. The equality
  is one of real numbers; floating-point rounding is outside the model.
\<close>

theorem energy_diff_consistent:
  assumes "UDMIS_init gl rand u0 graph = Inr m0" and "g_u gl = Some u"
    and "length occ = num_vertices m0" and "i < num_vertices m0"
  shows "\<exists>E E'. energy gl (m0\<lparr>occupations := occ\<rparr>) = Inr E \<and>
                 energy gl (flip (m0\<lparr>occupations := occ\<rparr>) i) = Inr E' \<and>
                 energy_diff gl (m0\<lparr>occupations := occ\<rparr>) i = Inr (E' - E)"
proof -
  let ?m = "m0\<lparr>occupations := occ\<rparr>"
  note F = UDMIS_init_fields[OF assms(1)]
  have wf0: "well_formed m0" by (rule UDMIS_init_well_formed[OF assms(1)])
  then have wf: "well_formed ?m" using assms(3) by (simp add: well_formed_def)
  have sym: "\<forall>a<num_vertices ?m. \<forall>b<num_vertices ?m. edges ?m ! a ! b = edges ?m ! b ! a"
    using find_edges_symmetric[OF F(5)] by simp
  have irr: "\<not> edges ?m ! i ! i"
    using find_edges_irreflexive[OF F(5) assms(4)] by simp
  have i: "i < num_vertices ?m" using assms(4) by simp
  show ?thesis by (rule energy_flip_general[OF wf i assms(2) sym irr])
qed

theorem energy_diff_consistent_witness:
  "\<exists>E E'. energy notebook_globals
            (notebook_instance\<lparr>occupations := [False, False, True, True, True, False]\<rparr>) = Inr E \<and>
          energy notebook_globals
            (flip (notebook_instance\<lparr>occupations := [False, False, True, True, True, False]\<rparr>) 5) = Inr E' \<and>
          energy_diff notebook_globals
            (notebook_instance\<lparr>occupations := [False, False, True, True, True, False]\<rparr>) 5 = Inr (E' - E)"
proof -
  have u: "g_u notebook_globals = Some notebook_u" by (simp add: notebook_globals_def)
  have len: "length [False, False, True, True, True, False] = num_vertices notebook_instance"
    by (simp add: notebook_instance_def)
  have i: "5 < num_vertices notebook_instance" by (simp add: notebook_instance_def)
  show ?thesis by (rule energy_diff_consistent[OF notebook_init u len i])
qed






section \<open>The graph builder\<close>



text \<open>
  C5 (symmetry, no self-loops). The matrix that \<open>find_edges\<close> returns and the
  constructor stores is symmetric with a false diagonal, and toggling an occupation
  leaves it as it is; \<open>energy\<close> and \<open>energy_diff\<close> return numbers and assign nothing.
\<close>

theorem edges_symmetric:
  assumes "UDMIS_init gl rand u graph = Inr m"
    and "i < num_vertices m" and "j < num_vertices m"
  shows "find_edges gl m = Inr (edges m) \<and>
         edges m ! i ! j = edges m ! j ! i \<and> \<not> edges m ! i ! i \<and>
         edges (flip m k) = edges m"
proof -
  have fe: "find_edges gl m = Inr (edges m)" by (rule UDMIS_init_fields(5)[OF assms(1)])
  have "edges m ! i ! j = edges m ! j ! i" by (rule find_edges_symmetric[OF fe assms(2,3)])
  moreover have "\<not> edges m ! i ! i" by (rule find_edges_irreflexive[OF fe assms(2)])
  moreover have "edges (flip m k) = edges m" by (simp add: flip_def)
  ultimately show ?thesis using fe by blast
qed

theorem edges_symmetric_witness:
  "find_edges notebook_globals notebook_instance = Inr (edges notebook_instance) \<and>
   edges notebook_instance ! 0 ! 3 = edges notebook_instance ! 3 ! 0 \<and>
   \<not> edges notebook_instance ! 0 ! 0 \<and>
   edges (flip notebook_instance 2) = edges notebook_instance"
proof -
  have i: "0 < num_vertices notebook_instance" and j: "3 < num_vertices notebook_instance"
    by (simp_all add: notebook_instance_def)
  show ?thesis by (rule edges_symmetric[OF notebook_init i j])
qed

text \<open>
  C7 (degenerate input). From no vertex or one vertex the constructor returns an
  instance whose adjacency matrix is all false; \<open>find_edges\<close> then runs no pass of
  its loops and does not even look the name \<open>graph\<close> up.
\<close>

theorem degenerate_graph:
  assumes "length graph \<le> 1"
  shows "\<exists>m. UDMIS_init gl rand u graph = Inr m \<and> num_vertices m = length graph \<and>
             edges m = replicate (length graph) (replicate (length graph) False)"
proof -
  have "[0..<length graph - 1] = []" using assms by simp
  then show ?thesis by (simp add: UDMIS_init_def find_edges_def Let_def)
qed

theorem degenerate_graph_witness:
  "\<exists>m. UDMIS_init notebook_globals low_draws notebook_u [(0, 0)] = Inr m \<and>
       num_vertices m = length [(0::real, 0::real)] \<and>
       edges m = replicate (length [(0::real, 0::real)]) (replicate (length [(0::real, 0::real)]) False)"
proof -
  have "length [(0::real, 0::real)] \<le> 1" by simp
  then show ?thesis by (rule degenerate_graph)
qed

section \<open>Construction\<close>

text \<open>
  C6 (invalid construction), as the code has it. Neither an empty coordinate list nor
  a non-positive \<open>u\<close> is rejected. An empty coordinate list gives the instance with no
  vertex. The value \<open>u\<close> is stored as it comes and decides nothing: with any other
  \<open>u'\<close>, non-positive ones included, and the same remaining inputs, construction
  succeeds when it does with \<open>u\<close>, the instance differing in \<open>self.u\<close> only, and raises
  the same exception when it raises with \<open>u\<close>.
\<close>

theorem construction_unchecked:
  "UDMIS_init gl rand u [] =
     Inr \<lparr> self_u = u, self_graph = [], num_vertices = 0, occupations = [], edges = [] \<rparr> \<and>
   (UDMIS_init gl rand u graph = Inr m \<longrightarrow> self_u m = u \<and>
      UDMIS_init gl rand u' graph = Inr (m\<lparr>self_u := u'\<rparr>)) \<and>
   (UDMIS_init gl rand u graph = Inl err \<longrightarrow> UDMIS_init gl rand u' graph = Inl err)"
  by (auto simp: UDMIS_init_def find_edges_def Let_def split: sum.splits)

theorem construction_unchecked_witness:
  "UDMIS_init notebook_globals low_draws 0 notebook_graph = Inr (notebook_instance\<lparr>self_u := 0\<rparr>) \<and>
   UDMIS_init unbound_globals low_draws (- 1) unit_pair_graph = Inl NameError"
  using construction_unchecked[of notebook_globals low_draws notebook_u notebook_graph notebook_instance 0]
    construction_unchecked[of unbound_globals low_draws notebook_u unit_pair_graph _ "- 1" NameError]
  by (simp add: notebook_init unbound_init)

text \<open>
  C6 as written, rejection at construction, fails: the constructor accepts an empty
  coordinate list, and it accepts \<open>u = -1\<close>.
\<close>

theorem construction_unchecked_counterexample:
  "UDMIS_init notebook_globals low_draws notebook_u [] = Inr empty_instance \<and>
   UDMIS_init notebook_globals low_draws (- 1) [(0, 0)] = Inr one_vertex_instance \<and>
   self_u one_vertex_instance \<le> 0"
  by (simp add: UDMIS_init_def find_edges_def one_vertex_instance_def empty_instance_def low_draws_def)

section \<open>Global names\<close>

text \<open>
  C10 (the methods read the globals). Changing \<open>self.u\<close> and \<open>self.graph\<close> changes no
  result of \<open>energy\<close>, \<open>energy_diff\<close> and \<open>find_edges\<close>. When the global \<open>u\<close> holds the
  value stored in \<open>self.u\<close>, \<open>energy\<close> and \<open>energy_diff\<close> return what they would return
  reading the attribute, and so does \<open>find_edges\<close> when the global \<open>graph\<close> holds
  \<open>self.graph\<close>. When a global has been rebound the results can differ: on the notebook's
  instance with \<open>u = 2\<close>, and on a two-vertex instance whose global \<open>graph\<close> holds other
  points.
\<close>

theorem methods_read_globals:
  "energy gl (m\<lparr>self_u := a, self_graph := g\<rparr>) = energy gl m \<and>
   energy_diff gl (m\<lparr>self_u := a, self_graph := g\<rparr>) i = energy_diff gl m i \<and>
   find_edges gl (m\<lparr>self_u := a, self_graph := g\<rparr>) = find_edges gl m \<and>
   (g_u gl = Some (self_u m) \<longrightarrow>
      energy gl m = energy (attribute_scope m) m \<and>
      energy_diff gl m i = energy_diff (attribute_scope m) m i) \<and>
   (g_graph gl = Some (self_graph m) \<longrightarrow>
      find_edges gl m = find_edges (attribute_scope m) m) \<and>
   energy (notebook_globals\<lparr>g_u := Some 2\<rparr>) notebook_instance \<noteq>
     energy (attribute_scope notebook_instance) notebook_instance \<and>
   energy_diff (notebook_globals\<lparr>g_u := Some 2\<rparr>) notebook_instance 0 \<noteq>
     energy_diff (attribute_scope notebook_instance) notebook_instance 0 \<and>
   find_edges (notebook_globals\<lparr>g_graph := Some [(0, 0), (1, 0)]\<rparr>)
       \<lparr> self_u = notebook_u, self_graph = [(0, 0), (5, 0)], num_vertices = 2,
         occupations = [True, True], edges = [] \<rparr> \<noteq>
     find_edges (attribute_scope
       \<lparr> self_u = notebook_u, self_graph = [(0, 0), (5, 0)], num_vertices = 2,
         occupations = [True, True], edges = [] \<rparr>)
       \<lparr> self_u = notebook_u, self_graph = [(0, 0), (5, 0)], num_vertices = 2,
         occupations = [True, True], edges = [] \<rparr>"
proof (intro conjI impI)
  show "energy gl (m\<lparr>self_u := a, self_graph := g\<rparr>) = energy gl m"
    by (simp add: energy_def Let_def split: prod.splits)
  show "energy_diff gl (m\<lparr>self_u := a, self_graph := g\<rparr>) i = energy_diff gl m i"
    by (simp add: energy_diff_def num_adjacent_occupied_def split: option.splits)
  show "find_edges gl (m\<lparr>self_u := a, self_graph := g\<rparr>) = find_edges gl m"
    by (simp add: find_edges_def)
next
  assume "g_u gl = Some (self_u m)"
  then have "g_u gl = g_u (attribute_scope m)" by (simp add: attribute_scope_def)
  then show "energy gl m = energy (attribute_scope m) m"
    and "energy_diff gl m i = energy_diff (attribute_scope m) m i"
    by (rule energy_cong, rule energy_diff_cong)
next
  assume "g_graph gl = Some (self_graph m)"
  then have "g_graph gl = g_graph (attribute_scope m)" by (simp add: attribute_scope_def)
  then show "find_edges gl m = find_edges (attribute_scope m) m" by (rule find_edges_cong)
next
  show "energy (notebook_globals\<lparr>g_u := Some 2\<rparr>) notebook_instance \<noteq>
     energy (attribute_scope notebook_instance) notebook_instance"
    by (simp add: notebook_energy_all attribute_scope_def)
       (simp add: notebook_instance_def notebook_u_def)
  show "energy_diff (notebook_globals\<lparr>g_u := Some 2\<rparr>) notebook_instance 0 \<noteq>
     energy_diff (attribute_scope notebook_instance) notebook_instance 0"
    by (simp add: energy_diff_def attribute_scope_def num_adjacent_occupied_def connections_def
        notebook_instance_def notebook_u_def upt_rec eval_nat_numeral)
  show "find_edges (notebook_globals\<lparr>g_graph := Some [(0, 0), (1, 0)]\<rparr>)
       \<lparr> self_u = notebook_u, self_graph = [(0, 0), (5, 0)], num_vertices = 2,
         occupations = [True, True], edges = [] \<rparr> \<noteq>
     find_edges (attribute_scope
       \<lparr> self_u = notebook_u, self_graph = [(0, 0), (5, 0)], num_vertices = 2,
         occupations = [True, True], edges = [] \<rparr>)
       \<lparr> self_u = notebook_u, self_graph = [(0, 0), (5, 0)], num_vertices = 2,
         occupations = [True, True], edges = [] \<rparr>"
    by (simp add: attribute_scope_def notebook_globals_def two_vertex_edges)
qed

theorem methods_read_globals_witness:
  "energy notebook_globals notebook_instance =
     energy (attribute_scope notebook_instance) notebook_instance \<and>
   energy_diff notebook_globals notebook_instance 0 =
     energy_diff (attribute_scope notebook_instance) notebook_instance 0 \<and>
   find_edges notebook_globals notebook_instance =
     find_edges (attribute_scope notebook_instance) notebook_instance"
proof -
  have u: "g_u notebook_globals = Some (self_u notebook_instance)"
    by (simp add: notebook_globals_def notebook_instance_def)
  have g: "g_graph notebook_globals = Some (self_graph notebook_instance)"
    by (simp add: notebook_globals_def notebook_instance_def)
  show ?thesis
    using methods_read_globals[where gl = notebook_globals and m = notebook_instance
        and i = 0 and a = 0 and g = "[]"] u g by blast
qed

section \<open>The annealing schedule\<close>

text \<open>
  C8 (schedule formula). For positive \<open>T_i\<close> and \<open>T_f\<close> the schedule array is built
  without an exception, its entry at every step index \<open>t < N\<close> is
  \<open>T_i * (T_f / T_i) powr (t / N)\<close>, and the loop is the step function driven once for
  each \<open>t\<close> from \<open>0\<close> to \<open>N - 1\<close>, in order, with that temperature.
\<close>

theorem annealing_schedule:
  assumes "0 < T_i" and "0 < T_f"
  shows "(\<exists>T. schedule T_i T_f N = Inr T \<and>
              (\<forall>t<N. T ! t = Some (T_i * (T_f / T_i) powr (real t / real N)))) \<and>
         anneal mc_step T_i T_f N s =
           drive_steps mc_step
             (map (\<lambda>t. Some (T_i * (T_f / T_i) powr (real t / real N))) [0..<N]) (None, s)"
proof -
  let ?T = "map (\<lambda>t. map_option ((*) T_i)
                            (np_power (T_f / T_i)
                               (if N = 0 then None else Some (real t / real N))))
                  [0..<N + 1]"
  have sched: "schedule T_i T_f N = Inr ?T" using assms(1) by (simp add: schedule_def)
  have entry: "\<forall>t<N. ?T ! t = Some (T_i * (T_f / T_i) powr (real t / real N))"
    using schedule_entry[OF assms] by blast
  have "map ((!) ?T) [0..<N] = map (\<lambda>t. Some (T_i * (T_f / T_i) powr (real t / real N))) [0..<N]"
    by (rule map_cong) (use entry in auto)
  then have "anneal mc_step T_i T_f N s =
           drive_steps mc_step
             (map (\<lambda>t. Some (T_i * (T_f / T_i) powr (real t / real N))) [0..<N]) (None, s)"
    by (simp only: anneal_def sched sum.case anneal_loop_drive)
  with sched entry show ?thesis by blast
qed

theorem annealing_schedule_witness:
  "(\<exists>T. schedule 100 (1 / 100) 5000 = Inr T \<and>
              (\<forall>t<5000. T ! t = Some (100 * ((1 / 100) / 100) powr (real t / real 5000)))) \<and>
   anneal idle_step 100 (1 / 100) 5000 0 =
     drive_steps idle_step
       (map (\<lambda>t. Some (100 * ((1 / 100) / 100) powr (real t / real 5000))) [0..<5000]) (None, 0)"
proof -
  have a: "(0::real) < 100" and b: "(0::real) < 1 / 100" by simp_all
  show ?thesis by (rule annealing_schedule[OF a b])
qed

section \<open>The step at zero temperature\<close>

text \<open>
  C9 (zero-temperature safety), on the step operation as the specification describes
  it. With \<open>T \<le> 0\<close>, on any built instance with any configuration and vertex, the
  step raises nothing (no division is attempted), the proposed flip is accepted exactly
  when its delta is at most zero, and the returned energy is that of the resulting
  configuration.
\<close>

theorem step_zero_temperature:
  assumes "UDMIS_init gl rand u0 graph = Inr m0" and "g_u gl = Some u"
    and "length occ = num_vertices m0" and "i < num_vertices m0" and "T \<le> 0"
  shows "\<exists>delta E. energy_diff gl (m0\<lparr>occupations := occ\<rparr>) i = Inr delta \<and>
           accept_flip T delta r = Inr (delta \<le> 0) \<and>
           step gl (m0\<lparr>occupations := occ\<rparr>) i r T =
             Inr (E, if delta \<le> 0 then flip (m0\<lparr>occupations := occ\<rparr>) i else m0\<lparr>occupations := occ\<rparr>) \<and>
           energy gl (if delta \<le> 0 then flip (m0\<lparr>occupations := occ\<rparr>) i else m0\<lparr>occupations := occ\<rparr>) = Inr E"
proof -
  let ?m = "m0\<lparr>occupations := occ\<rparr>"
  note F = UDMIS_init_fields[OF assms(1)]
  have wf0: "well_formed m0" by (rule UDMIS_init_well_formed[OF assms(1)])
  then have wf: "well_formed ?m" using assms(3) by (simp add: well_formed_def)
  have sym: "\<forall>a<num_vertices ?m. \<forall>b<num_vertices ?m. edges ?m ! a ! b = edges ?m ! b ! a"
    using find_edges_symmetric[OF F(5)] by simp
  have irr: "\<not> edges ?m ! i ! i"
    using find_edges_irreflexive[OF F(5) assms(4)] by simp
  have i: "i < num_vertices ?m" using assms(4) by simp
  from energy_flip_general[OF wf i assms(2) sym irr]
  obtain E0 E1 where E0: "energy gl ?m = Inr E0" and E1: "energy gl (flip ?m i) = Inr E1"
    and d: "energy_diff gl ?m i = Inr (E1 - E0)" by blast
  have acc: "accept_flip T (E1 - E0) r = Inr (E1 - E0 \<le> 0)"
    using assms(5) by (simp add: accept_flip_def)
  show ?thesis
  proof (cases "E1 - E0 \<le> 0")
    case True
    then have "step gl ?m i r T = Inr (E1, flip ?m i)"
      by (simp add: step_def d acc E1)
    with True d acc E1 show ?thesis by auto
  next
    case False
    then have "step gl ?m i r T = Inr (E0, ?m)"
      by (simp add: step_def d acc E0)
    with False d acc E0 show ?thesis by auto
  qed
qed

theorem step_zero_temperature_witness:
  "\<exists>delta E. energy_diff notebook_globals (notebook_instance\<lparr>occupations := [False, False, True, True, True, False]\<rparr>) 5 = Inr delta \<and>
           accept_flip 0 delta (1 / 2) = Inr (delta \<le> 0) \<and>
           step notebook_globals (notebook_instance\<lparr>occupations := [False, False, True, True, True, False]\<rparr>) 5 (1 / 2) 0 =
             Inr (E, if delta \<le> 0 then flip (notebook_instance\<lparr>occupations := [False, False, True, True, True, False]\<rparr>) 5
                     else notebook_instance\<lparr>occupations := [False, False, True, True, True, False]\<rparr>) \<and>
           energy notebook_globals (if delta \<le> 0 then flip (notebook_instance\<lparr>occupations := [False, False, True, True, True, False]\<rparr>) 5
                     else notebook_instance\<lparr>occupations := [False, False, True, True, True, False]\<rparr>) = Inr E"
proof -
  have u: "g_u notebook_globals = Some notebook_u" by (simp add: notebook_globals_def)
  have len: "length [False, False, True, True, True, False] = num_vertices notebook_instance"
    by (simp add: notebook_instance_def)
  have i: "5 < num_vertices notebook_instance" by (simp add: notebook_instance_def)
  have T: "(0::real) \<le> 0" by simp
  show ?thesis by (rule step_zero_temperature[OF notebook_init u len i T])
qed

end
